theory Spec2Isabelle
  imports Complex_Main
begin

section \<open>Numbers, points and errors\<close>

text \<open>
  The drawing code of \<^verbatim>\<open>cairosvg/text.py\<close> computes with Python floats. They are
  modelled as real numbers: every claim below is about which branch is taken and which
  arithmetic expression is evaluated, not about rounding.  A Python exception is a value
  of the type \<open>error\<close>, on the left of a sum.
\<close>

type_synonym point = "real \<times> real"

datatype error = UnboundLocalError | ValueError | IndexError | TypeError

section \<open>Path sampler\<close>

text \<open>
  An item of a flattened cairo path is a pair of a type tag and a point.  The two loops
  of the source test the tag for \<^verbatim>\<open>PATH_MOVE_TO\<close> and \<^verbatim>\<open>PATH_LINE_TO\<close> and skip every
  other item; a flattened path has no curve, so the only other item is the one that
  closes a sub-path.
\<close>

datatype segment = MoveTo point | LineTo point | ClosePath

text \<open>
  Modelled from the spec: \<^verbatim>\<open>distance\<close> of \<^verbatim>\<open>cairosvg/helpers.py\<close>, which is not among
  the sources.  The spec calls it the Euclidean distance between two points.
\<close>

definition distance :: "real \<Rightarrow> real \<Rightarrow> real \<Rightarrow> real \<Rightarrow> real" where
  "distance x1 y1 x2 y2 = sqrt ((x2 - x1)\<^sup>2 + (y2 - y1)\<^sup>2)"

text \<open>
  Modelled from the spec: \<^verbatim>\<open>point_angle\<close> of \<^verbatim>\<open>cairosvg/helpers.py\<close>, which is not
  among the sources.  The spec calls it the angle of the direction from the first
  point to the second; it is the argument of the difference vector, in the interval
  from \<open>- pi\<close> (excluded) to \<open>pi\<close>, and 0 for two equal points.
\<close>

definition point_angle :: "real \<Rightarrow> real \<Rightarrow> real \<Rightarrow> real \<Rightarrow> real" where
  "point_angle cx cy px py = Arg (Complex (px - cx) (py - cy))"

text \<open>
  \<^verbatim>\<open>path_length\<close>: the loop over the items, with the local variables \<^verbatim>\<open>old_point\<close>
  (unbound until the first \<^verbatim>\<open>MoveTo\<close>) and \<^verbatim>\<open>total_length\<close> as arguments.  Reading
  \<^verbatim>\<open>old_point\<close> while it is unbound raises \<^verbatim>\<open>UnboundLocalError\<close>.
\<close>

fun path_length_loop :: "point option \<Rightarrow> real \<Rightarrow> segment list \<Rightarrow> error + real" where
  "path_length_loop old_point total_length [] = Inr total_length"
| "path_length_loop old_point total_length (MoveTo p # path) =
     path_length_loop (Some p) total_length path"
| "path_length_loop old_point total_length (LineTo new_point # path) =
     (case old_point of
        None \<Rightarrow> Inl UnboundLocalError
      | Some old \<Rightarrow>
          path_length_loop (Some new_point)
            (total_length + distance (fst old) (snd old) (fst new_point) (snd new_point))
            path)"
| "path_length_loop old_point total_length (ClosePath # path) =
     path_length_loop old_point total_length path"

definition path_length :: "segment list \<Rightarrow> error + real" where
  "path_length path = path_length_loop None 0 path"

text \<open>
  \<^verbatim>\<open>point_following_path\<close>: the same loop, which returns from inside as soon as the
  accumulated length is not below \<^verbatim>\<open>width\<close>, and falls off its end (Python's \<^verbatim>\<open>None\<close>)
  otherwise.
\<close>

fun point_following_path_loop ::
  "point option \<Rightarrow> real \<Rightarrow> real \<Rightarrow> segment list \<Rightarrow> error + point option" where
  "point_following_path_loop old_point total_length width [] = Inr None"
| "point_following_path_loop old_point total_length width (MoveTo p # path) =
     point_following_path_loop (Some p) total_length width path"
| "point_following_path_loop old_point total_length width (LineTo new_point # path) =
     (case old_point of
        None \<Rightarrow> Inl UnboundLocalError
      | Some old \<Rightarrow>
          (let length = distance (fst old) (snd old) (fst new_point) (snd new_point);
               total_length = total_length + length
           in if total_length < width
              then point_following_path_loop (Some new_point) total_length width path
              else
                (let length = length - (total_length - width);
                     angle = point_angle (fst old) (snd old) (fst new_point) (snd new_point);
                     x = cos angle * length + fst old;
                     y = sin angle * length + snd old
                 in Inr (Some (x, y)))))"
| "point_following_path_loop old_point total_length width (ClosePath # path) =
     point_following_path_loop old_point total_length width path"

definition point_following_path :: "segment list \<Rightarrow> real \<Rightarrow> error + point option" where
  "point_following_path path width = point_following_path_loop None 0 width path"

section \<open>Document nodes\<close>

text \<open>
  A node of the document tree has a tag, an optional text, a dictionary of string
  attributes and its children in document order.  The class itself is not among the
  sources; \<^verbatim>\<open>text.py\<close> reads \<^verbatim>\<open>node.tag\<close>, \<^verbatim>\<open>node.text\<close>, \<^verbatim>\<open>node.children\<close>,
  \<^verbatim>\<open>node.parent\<close> and the dictionary interface (\<^verbatim>\<open>node.get(k)\<close>, \<^verbatim>\<open>k in node\<close>,
  \<^verbatim>\<open>node[k]\<close>).  Strings are lists of characters with codes below 256.
\<close>

datatype node =
  Node (tag: string) (node_text: "string option") (attrib: "(string \<times> string) list")
    (children: "node list")

definition get :: "node \<Rightarrow> string \<Rightarrow> string option" where
  "get n k = map_of (attrib n) k"

text \<open>
  Python's truth value of an optional string (\<^verbatim>\<open>None\<close> and the empty string are
  false), and \<^verbatim>\<open>a or b\<close> on two of them.
\<close>

definition truthy :: "string option \<Rightarrow> bool" where
  "truthy s = (case s of None \<Rightarrow> False | Some t \<Rightarrow> t \<noteq> [])"

definition py_or :: "string option \<Rightarrow> string option \<Rightarrow> string option" where
  "py_or a b = (if truthy a then a else b)"

text \<open>
  A node object is a node together with its place in the tree: the chain of its
  ancestors, nearest first, each with the siblings to the left and to the right of the
  child the chain comes from.  \<^verbatim>\<open>node.parent\<close> rebuilds the parent from the first
  link; two references are the same object (\<^verbatim>\<open>is\<close>) when they are equal.

  A node is a dictionary, and Python takes a dictionary without entries to be false.
  So \<^verbatim>\<open>node.parent\<close> is false in a condition when there is no parent and also when
  the parent has no attribute.
\<close>

datatype crumb =
  Crumb (crumb_tag: string) (crumb_text: "string option")
    (crumb_attrib: "(string \<times> string) list") (left: "node list") (right: "node list")

type_synonym node_ref = "node \<times> crumb list"

definition plug :: "crumb \<Rightarrow> node \<Rightarrow> node" where
  "plug c n = Node (crumb_tag c) (crumb_text c) (crumb_attrib c) (left c @ n # right c)"

definition parent :: "node_ref \<Rightarrow> node_ref option" where
  "parent r = (case snd r of [] \<Rightarrow> None | c # cs \<Rightarrow> Some (plug c (fst r), cs))"

text \<open>The truth value of \<^verbatim>\<open>node.parent\<close> for the first link of the chain.\<close>

definition parent_truthy :: "crumb \<Rightarrow> bool" where
  "parent_truthy c = (crumb_attrib c \<noteq> [])"

section \<open>Font context setup\<close>

text \<open>
  The constants of the cairo binding that \<^verbatim>\<open>getattr\<close> can reach under the two name
  prefixes used by the source.
\<close>

datatype font_slant = FONT_SLANT_NORMAL | FONT_SLANT_ITALIC | FONT_SLANT_OBLIQUE

datatype font_weight = FONT_WEIGHT_NORMAL | FONT_WEIGHT_BOLD

record font_face =
  face_family :: string
  face_slant :: font_slant
  face_weight :: font_weight
  face_size :: real

text \<open>
  \<^verbatim>\<open>str.upper\<close> on characters below 256.  The letters \<open>a\<close> to \<open>z\<close> and the accented
  letters 224 to 254 (but 247) have their capital 32 below; the sharp s (223) becomes two
  capital letters S.  The capitals of the characters 181 and 255 have codes above 255;
  here they stand for themselves, and like their capitals they are no ASCII character.
\<close>

definition upper_char :: "char \<Rightarrow> string" where
  "upper_char c =
     (case map_of (zip ''abcdefghijklmnopqrstuvwxyz'' ''ABCDEFGHIJKLMNOPQRSTUVWXYZ'') c of
        Some u \<Rightarrow> [u]
      | None \<Rightarrow>
          if (of_char c :: nat) = 223 then ''SS''
          else if 224 \<le> (of_char c :: nat) \<and> (of_char c :: nat) \<le> 254
                  \<and> (of_char c :: nat) \<noteq> 247
          then [char_of ((of_char c :: nat) - 32)]
          else [c])"

definition upper :: "string \<Rightarrow> string" where
  "upper s = concat (map upper_char s)"

text \<open>
  \<^verbatim>\<open>str.isdigit\<close> on characters below 256: the ten decimal digits and the three
  superscript digits 178, 179 and 185.
\<close>

definition digit_value :: "char \<Rightarrow> nat option" where
  "digit_value c = map_of (zip ''0123456789'' [0, 1, 2, 3, 4, 5, 6, 7, 8, 9]) c"

definition isdigit_char :: "char \<Rightarrow> bool" where
  "isdigit_char c = (digit_value c \<noteq> None \<or> (of_char c :: nat) \<in> set [178, 179, 185])"

definition isdigit :: "string \<Rightarrow> bool" where
  "isdigit s = (s \<noteq> [] \<and> list_all isdigit_char s)"

text \<open>The value of a string of decimal digits.\<close>

definition int_of_digits :: "string \<Rightarrow> nat" where
  "int_of_digits s =
     foldl (\<lambda>n c. 10 * n + (case digit_value c of None \<Rightarrow> 0 | Some d \<Rightarrow> d)) 0 s"

text \<open>
  \<^verbatim>\<open>int(s)\<close> and \<^verbatim>\<open>float(s)\<close> on a string for which \<^verbatim>\<open>isdigit\<close> holds: the value when
  every character is a decimal digit, and \<^verbatim>\<open>ValueError\<close> when one is a superscript.
\<close>

definition py_int :: "string \<Rightarrow> error + nat" where
  "py_int s =
     (if s \<noteq> [] \<and> list_all (\<lambda>c. digit_value c \<noteq> None) s then Inr (int_of_digits s)
      else Inl ValueError)"

text \<open>\<^verbatim>\<open>s.strip(chars)\<close>: drop the characters of \<open>chars\<close> from both ends.\<close>

definition strip_chars :: "string \<Rightarrow> string \<Rightarrow> string" where
  "strip_chars chars s =
     rev (dropWhile (\<lambda>c. c \<in> set chars) (rev (dropWhile (\<lambda>c. c \<in> set chars) s)))"

text \<open>The text of \<^verbatim>\<open>f'{v}'\<close> for an optional string.\<close>

definition format_opt :: "string option \<Rightarrow> string" where
  "format_opt v = (case v of None \<Rightarrow> ''None'' | Some s \<Rightarrow> s)"

definition getattr_font_slant :: "string \<Rightarrow> font_slant \<Rightarrow> font_slant" where
  "getattr_font_slant name dflt =
     (if name = ''FONT_SLANT_NORMAL'' then FONT_SLANT_NORMAL
      else if name = ''FONT_SLANT_ITALIC'' then FONT_SLANT_ITALIC
      else if name = ''FONT_SLANT_OBLIQUE'' then FONT_SLANT_OBLIQUE
      else dflt)"

definition getattr_font_weight :: "string \<Rightarrow> font_weight \<Rightarrow> font_weight" where
  "getattr_font_weight name dflt =
     (if name = ''FONT_WEIGHT_NORMAL'' then FONT_WEIGHT_NORMAL
      else if name = ''FONT_WEIGHT_BOLD'' then FONT_WEIGHT_BOLD
      else dflt)"

text \<open>
  \<^verbatim>\<open>initial_context_font\<close>.  Its effect is the font face and the font size that it
  selects on the context; they are returned as one value.  The second argument is
  \<^verbatim>\<open>surface.font_size\<close>, the only field of the surface that the function reads.  The
  calls of \<^verbatim>\<open>int\<close> (line 62) and of \<^verbatim>\<open>float\<close> (line 70) may raise.
\<close>

definition initial_context_font :: "real \<Rightarrow> node \<Rightarrow> error + font_face" where
  "initial_context_font surface_font_size node =
     (let font_family =
            strip_chars [CHR 0x22, CHR 0x27, CHR '' '']
              (takeWhile (\<lambda>c. c \<noteq> CHR '','')
                 (case py_or (get node ''font-family'') (Some ''sans-serif'') of
                    None \<Rightarrow> [] | Some s \<Rightarrow> s));
          font_style =
            getattr_font_slant (upper (''font_slant_'' @ format_opt (get node ''font-style'')))
              FONT_SLANT_NORMAL;
          node_font_weight = get node ''font-weight''
      in case (case node_font_weight of
                 None \<Rightarrow> Inr None
               | Some w \<Rightarrow>
                   if w \<noteq> [] \<and> isdigit w
                   then (case py_int w of
                           Inl err \<Rightarrow> Inl err
                         | Inr v \<Rightarrow> Inr (Some (if v \<ge> 550 then ''bold'' else w)))
                   else Inr (Some w)) of
           Inl err \<Rightarrow> Inl err
         | Inr node_font_weight \<Rightarrow>
             (let font_weight =
                    getattr_font_weight
                      (upper (''font_weight_'' @ format_opt node_font_weight))
                      FONT_WEIGHT_NORMAL;
                  node_font_size = get node ''font-size''
              in case (case node_font_size of
                         None \<Rightarrow> Inr surface_font_size
                       | Some z \<Rightarrow>
                           if z \<noteq> [] \<and> isdigit z
                           then (case py_int z of
                                   Inl err \<Rightarrow> Inl err
                                 | Inr v \<Rightarrow> Inr (real v))
                           else Inr surface_font_size) of
                   Inl err \<Rightarrow> Inl err
                 | Inr font_size \<Rightarrow>
                     Inr \<lparr>face_family = font_family, face_slant = font_style,
                          face_weight = font_weight, face_size = font_size\<rparr>))"

section \<open>Collaborators\<close>

text \<open>
  The six numbers of a cairo text-extent query:
  \<open>(x_bearing, y_bearing, width, height, x_advance, y_advance)\<close>.
\<close>

type_synonym extents = "real \<times> real \<times> real \<times> real \<times> real \<times> real"

datatype reference = Ref_x | Ref_y | Ref_xy | Ref_length real

text \<open>
  What \<^verbatim>\<open>text.py\<close> calls and does not define is a parameter of the model:
  \<^item> \<open>text_extents\<close> and \<open>font_extents\<close>, the queries of the drawing context, which
    depend on the font selected on the context;
  \<^item> \<open>size_of\<close>, the unit resolver \<^verbatim>\<open>size(surface, string, reference)\<close>, whose string
    argument is absent when the attribute is;
  \<^item> \<open>normalize\<close>, the helper that rewrites an attribute value into values separated by
    single spaces;
  \<^item> \<open>float_of\<close>, Python's \<^verbatim>\<open>float\<close> on a string, \<open>None\<close> when it raises \<^verbatim>\<open>ValueError\<close>;
  \<^item> \<open>text_path\<close>, the flattened geometry (\<^verbatim>\<open>copy_path_flat\<close>) of the path node that the
    reference of the node or of its parent resolves to, \<open>None\<close> when \<^verbatim>\<open>text_path\<close> is
    false (lines 113 to 117).
\<close>

record env =
  text_extents :: "font_face \<Rightarrow> string option \<Rightarrow> extents"
  font_extents :: "font_face \<Rightarrow> real \<times> real \<times> real \<times> real \<times> real"
  size_of :: "string option \<Rightarrow> reference \<Rightarrow> real"
  normalize :: "string \<Rightarrow> string"
  float_of :: "string \<Rightarrow> real option"
  text_path :: "segment list option"

section \<open>Text extent aggregator\<close>

text \<open>
  \<^verbatim>\<open>get_single_node_text_extends\<close>: inside a saved and restored context, select the
  font of the node, which may raise, and measure its text.
\<close>

definition get_single_node_text_extends :: "env \<Rightarrow> real \<Rightarrow> node \<Rightarrow> error + extents" where
  "get_single_node_text_extends e surface_font_size node =
     (case initial_context_font surface_font_size node of
        Inl err \<Rightarrow> Inl err
      | Inr font \<Rightarrow> Inr (text_extents e font (node_text node)))"

text \<open>
  \<^verbatim>\<open>iter_nodes\<close>: the node, then the nodes of each child in turn.  The second function
  is the loop over the children; it carries the fields of the parent and the children
  already passed, from which the place of each child is built.
\<close>

fun iter_nodes :: "node \<Rightarrow> crumb list \<Rightarrow> node_ref list"
  and iter_children ::
    "string \<Rightarrow> string option \<Rightarrow> (string \<times> string) list \<Rightarrow> node list \<Rightarrow> node list \<Rightarrow>
     crumb list \<Rightarrow> node_ref list" where
  "iter_nodes (Node t x a ch) cs = (Node t x a ch, cs) # iter_children t x a [] ch cs"
| "iter_children t x a l [] cs = []"
| "iter_children t x a l (sub_node # r) cs =
     iter_nodes sub_node (Crumb t x a l r # cs) @ iter_children t x a (l @ [sub_node]) r cs"

text \<open>
  The \<^verbatim>\<open>while\<close> loop of \<^verbatim>\<open>get_node_text_extents\<close> (line 90): go to the parent as long
  as the tag is not \<^verbatim>\<open>text\<close> and \<^verbatim>\<open>parent_text_node.parent\<close> is true.
\<close>

fun climb :: "node \<Rightarrow> crumb list \<Rightarrow> node_ref" where
  "climb n [] = (n, [])"
| "climb n (c # cs) =
     (if tag n \<noteq> ''text'' \<and> parent_truthy c then climb (plug c n) cs else (n, c # cs))"

text \<open>
  Lines 89 to 93: the container whose nodes are measured.  After the loop, a node that
  is not the queried one and is not tagged \<^verbatim>\<open>text\<close> is replaced by the queried node.
\<close>

definition text_container :: "node_ref \<Rightarrow> node_ref" where
  "text_container node =
     (let parent_text_node = climb (fst node) (snd node)
      in if parent_text_node \<noteq> node \<and> tag (fst parent_text_node) \<noteq> ''text''
         then node else parent_text_node)"

text \<open>
  The \<^verbatim>\<open>for\<close> loop of \<^verbatim>\<open>get_node_text_extents\<close> over the nodes of the container; an
  exception of the measurement ends it.
\<close>

fun extents_loop ::
  "env \<Rightarrow> real \<Rightarrow> node_ref \<Rightarrow> real \<times> real \<times> real \<times> real \<Rightarrow> node_ref list \<Rightarrow>
   error + real \<times> real \<times> real \<times> real" where
  "extents_loop e fs node acc [] = Inr acc"
| "extents_loop e fs node (x_bearing, y_bearing, width, height) (sub_node # rest) =
     (case get_single_node_text_extends e fs (fst sub_node) of
        Inl err \<Rightarrow> Inl err
      | Inr (a, b, c, d, e', f) \<Rightarrow>
          extents_loop e fs node
            (if sub_node = node then (a, b, width + c, d)
             else (x_bearing, y_bearing, width + c, height))
            rest)"

definition get_node_text_extents :: "env \<Rightarrow> real \<Rightarrow> node_ref \<Rightarrow> error + extents" where
  "get_node_text_extents e surface_font_size node =
     (let parent_text_node = text_container node
      in case extents_loop e surface_font_size node (0, 0, 0, 0)
                (iter_nodes (fst parent_text_node) (snd parent_text_node)) of
           Inl err \<Rightarrow> Inl err
         | Inr (x_bearing, y_bearing, width, height) \<Rightarrow>
             Inr (x_bearing, y_bearing, width, height,
                  width - x_bearing, height - y_bearing))"

text \<open>
  The words of the specification for the container: the chain of a node and its
  ancestors, nearest first, and the first of them tagged \<^verbatim>\<open>text\<close>, or the node itself
  when there is none.
\<close>

fun ancestors_or_self :: "node \<Rightarrow> crumb list \<Rightarrow> node_ref list" where
  "ancestors_or_self n [] = [(n, [])]"
| "ancestors_or_self n (c # cs) = (n, c # cs) # ancestors_or_self (plug c n) cs"

definition enclosing_text :: "node_ref \<Rightarrow> node_ref" where
  "enclosing_text node =
     (case find (\<lambda>r. tag (fst r) = ''text'') (ancestors_or_self (fst node) (snd node)) of
        None \<Rightarrow> node
      | Some r \<Rightarrow> r)"

definition x_bearing_of :: "extents \<Rightarrow> real" where
  "x_bearing_of t = (case t of (a, b, c, d, e, f) \<Rightarrow> a)"

definition y_bearing_of :: "extents \<Rightarrow> real" where
  "y_bearing_of t = (case t of (a, b, c, d, e, f) \<Rightarrow> b)"

definition width_of :: "extents \<Rightarrow> real" where
  "width_of t = (case t of (a, b, c, d, e, f) \<Rightarrow> c)"

definition height_of :: "extents \<Rightarrow> real" where
  "height_of t = (case t of (a, b, c, d, e, f) \<Rightarrow> d)"

definition x_advance_of :: "extents \<Rightarrow> real" where
  "x_advance_of t = (case t of (a, b, c, d, e, f) \<Rightarrow> e)"

text \<open>The nodes of a subtree in document order: a node before its children.\<close>

fun preorder :: "node \<Rightarrow> node list" where
  "preorder (Node t x a ch) = Node t x a ch # concat (map preorder ch)"

section \<open>Text layout engine\<close>

subsection \<open>State of the surface\<close>

text \<open>
  The calls that the function \<^verbatim>\<open>text\<close> itself makes on the drawing context, and the
  call of \<^verbatim>\<open>surface.draw\<close> on the path node, are recorded in order.  The other fields
  are the attributes of the surface that the function reads and assigns.
\<close>

datatype ctx_call =
  New_path | Draw_text_path | Save | Restore
  | Translate real real | Rotate real | Move_to real real | Rel_move_to real real
  | Show_text string | Glyph_path string

record surface =
  font_size :: real
  context_font :: font_face
  context_calls :: "ctx_call list"
  stroke_and_fill :: bool
  cursor_position :: point
  cursor_d_position :: point
  text_path_width :: real

definition call :: "ctx_call list \<Rightarrow> surface \<Rightarrow> surface" where
  "call cs s = s\<lparr>context_calls := context_calls s @ cs\<rparr>"

subsection \<open>Bounding boxes\<close>

text \<open>
  The bounding-box helpers of \<^verbatim>\<open>cairosvg/bounding_box.py\<close> are not among the sources.
  In the words of the spec a box is the empty sentinel or a pair of a minimal and a
  maximal corner.
\<close>

type_synonym bbox = "(point \<times> point) option"


text \<open>
  Modelled from the spec: \<^verbatim>\<open>extend_bounding_box\<close>, a no-op on no points, which
  otherwise grows the box to cover the new points; \<open>extend_point\<close> is its step for one
  point.
\<close>

definition extend_point :: "bbox \<Rightarrow> point \<Rightarrow> bbox" where
  "extend_point b p =
     (case b of
        None \<Rightarrow> Some (p, p)
      | Some (lo, hi) \<Rightarrow>
          Some ((min (fst lo) (fst p), min (snd lo) (snd p)),
                (max (fst hi) (fst p), max (snd hi) (snd p))))"

definition extend_bounding_box :: "bbox \<Rightarrow> point list \<Rightarrow> bbox" where
  "extend_bounding_box b points = foldl extend_point b points"


subsection \<open>Attribute lists\<close>

text \<open>
  Python's \<^verbatim>\<open>str.isspace\<close> on one character, \<^verbatim>\<open>str.strip()\<close> and \<^verbatim>\<open>str.split(' ')\<close>,
  on characters below 256.
\<close>

definition isspace :: "char \<Rightarrow> bool" where
  "isspace c = ((of_char c :: nat) \<in> set [9, 10, 11, 12, 13, 28, 29, 30, 31, 32, 133, 160])"







text \<open>
  Modelled from the spec: \<^verbatim>\<open>zip_letters\<close> of \<^verbatim>\<open>cairosvg/helpers.py\<close>, which is not
  among the sources.  It pairs the five lists with the characters of the text, one tuple
  \<open>(x, y, dx, dy, rotation)\<close> per character; a list shorter than the text is padded with
  "unspecified" (\<open>None\<close>).
\<close>

type_synonym letter_position =
  "real option \<times> real option \<times> real option \<times> real option \<times> real option"



subsection \<open>Alignment\<close>

text \<open>Lines 141 to 152: the horizontal offset of the anchor.\<close>

definition x_align :: "string option \<Rightarrow> real \<Rightarrow> real \<Rightarrow> real \<Rightarrow> string option \<Rightarrow> real" where
  "x_align text_anchor width x_bearing letter_spacing text =
     (if text_anchor = Some ''middle'' then
        (let xa = - (width / 2 + x_bearing)
         in if letter_spacing \<noteq> 0 \<and> truthy text
            then xa - (real (length (case text of None \<Rightarrow> [] | Some t \<Rightarrow> t)) - 1)
                        * letter_spacing / 2
            else xa)
      else if text_anchor = Some ''end'' then
        (let xa = - (width + x_bearing)
         in if letter_spacing \<noteq> 0 \<and> truthy text
            then xa - (real (length (case text of None \<Rightarrow> [] | Some t \<Rightarrow> t)) - 1)
                        * letter_spacing
            else xa)
      else 0)"

text \<open>Lines 161 to 186: the vertical offset of the baseline.\<close>

definition y_align ::
  "real \<Rightarrow> real \<Rightarrow> real \<Rightarrow> real \<Rightarrow> real \<Rightarrow> real \<Rightarrow>
   string option \<Rightarrow> string option \<Rightarrow> string option \<Rightarrow> real" where
  "y_align ascent descent max_x_advance max_y_advance height y_bearing
     display_anchor dominant_baseline alignment_baseline_attr =
     (if max_x_advance > 0 \<and> max_y_advance = 0 then
        (let alignment_baseline = py_or dominant_baseline alignment_baseline_attr
         in if display_anchor = Some ''middle'' then - height / 2 - y_bearing
            else if display_anchor = Some ''top'' then - y_bearing
            else if display_anchor = Some ''bottom'' then - height - y_bearing
            else if alignment_baseline = Some ''central'' \<or> alignment_baseline = Some ''middle''
              then (ascent + descent) / 2 - descent
            else if alignment_baseline = Some ''text-before-edge''
                    \<or> alignment_baseline = Some ''before_edge''
                    \<or> alignment_baseline = Some ''top''
                    \<or> alignment_baseline = Some ''hanging''
                    \<or> alignment_baseline = Some ''text-top''
              then ascent
            else if alignment_baseline = Some ''text-after-edge''
                    \<or> alignment_baseline = Some ''after_edge''
                    \<or> alignment_baseline = Some ''bottom''
                    \<or> alignment_baseline = Some ''text-bottom''
              then - descent
            else 0)
      else 0)"

subsection \<open>The loop over the characters\<close>

text \<open>
  The local values of \<^verbatim>\<open>text\<close> that the loop reads and does not change.  \<open>run_path\<close>
  is the flattened path together with \<^verbatim>\<open>length\<close>, present when \<^verbatim>\<open>text_path\<close> is true.
\<close>

record run =
  run_font :: font_face
  run_path :: "(segment list \<times> real) option"
  run_letter_spacing :: real
  run_x_align :: real
  run_y_align :: real
  run_last_r :: real
  run_draw_as_text :: bool

text \<open>Python's truth value of an optional number, and \<^verbatim>\<open>v or 0\<close>.\<close>

definition nonzero :: "real option \<Rightarrow> bool" where
  "nonzero v = (case v of None \<Rightarrow> False | Some d \<Rightarrow> d \<noteq> 0)"

definition or_zero :: "real option \<Rightarrow> real" where
  "or_zero v = (case v of None \<Rightarrow> 0 | Some d \<Rightarrow> if d \<noteq> 0 then d else 0)"

text \<open>Lines 205 to 210: the update of \<^verbatim>\<open>surface.cursor_d_position\<close>.\<close>

definition accumulate_deltas :: "letter_position \<Rightarrow> surface \<Rightarrow> surface" where
  "accumulate_deltas p s =
     (case p of (x, y, dx, dy, r) \<Rightarrow>
        (let s = (if nonzero x then s\<lparr>cursor_d_position := (0, snd (cursor_d_position s))\<rparr>
                  else s);
             s = (if nonzero y then s\<lparr>cursor_d_position := (fst (cursor_d_position s), 0)\<rparr>
                  else s);
             s = s\<lparr>cursor_d_position :=
                     (fst (cursor_d_position s) + or_zero dx, snd (cursor_d_position s))\<rparr>;
             s = s\<lparr>cursor_d_position :=
                     (fst (cursor_d_position s), snd (cursor_d_position s) + or_zero dy)\<rparr>
         in s))"

text \<open>Lines 256 to 262: the glyph, unless the character is white space, and the restore.\<close>

definition emit_letter :: "bool \<Rightarrow> char \<Rightarrow> surface \<Rightarrow> surface" where
  "emit_letter draw_as_text letter s =
     (let s = (if \<not> isspace letter
               then call [if draw_as_text then Show_text [letter] else Glyph_path [letter]] s
               else s)
      in call [Restore] s)"

text \<open>
  The body of the loop for the character of index \<open>i\<close>.  A \<^verbatim>\<open>continue\<close> is the early
  result \<open>Inr (s, bounding_box)\<close>.
\<close>

definition letter_step ::
  "env \<Rightarrow> run \<Rightarrow> nat \<Rightarrow> letter_position \<times> char \<Rightarrow> surface \<times> bbox \<Rightarrow> error + surface \<times> bbox" where
  "letter_step e rn i lp st =
     (case lp of ((x, y, dx, dy, r), letter) \<Rightarrow>
      case st of (s, bounding_box) \<Rightarrow>
        (let s = accumulate_deltas (x, y, dx, dy, r) s;
             letter_extents = text_extents e (run_font rn) (Some [letter]);
             extents = x_advance_of letter_extents
         in case run_path rn of
              Some (cairo_path, length') \<Rightarrow>
                (let start = text_path_width s + fst (cursor_d_position s)
                 in case point_following_path cairo_path start of
                      Inl err \<Rightarrow> Inl err
                    | Inr start_point \<Rightarrow>
                 (let middle = start + extents / 2
                  in case point_following_path cairo_path middle of
                       Inl err \<Rightarrow> Inl err
                     | Inr middle_point \<Rightarrow>
                 (let end_pos = start + extents
                  in case point_following_path cairo_path end_pos of
                       Inl err \<Rightarrow> Inl err
                     | Inr end_point \<Rightarrow>
                 (let extents = (if i \<noteq> 0 then extents + run_letter_spacing rn else extents);
                      s = s\<lparr>text_path_width := text_path_width s + extents\<rparr>
                  in case (start_point, middle_point, end_point) of
                       (Some sp, Some mp, Some ep) \<Rightarrow>
                         if \<not> (0 \<le> middle \<and> middle \<le> length') then Inr (s, bounding_box)
                         else
                           (let s = call [Save, Translate (fst sp) (snd sp),
                                          Rotate (point_angle (fst sp) (snd sp) (fst ep) (snd ep)),
                                          Translate 0 (snd (cursor_d_position s)),
                                          Move_to 0 0] s;
                                bounding_box =
                                  extend_bounding_box bounding_box
                                    [(fst ep, height_of letter_extents)]
                            in Inr (emit_letter (run_draw_as_text rn) letter s, bounding_box))
                     | _ \<Rightarrow> Inr (s, bounding_box)))))
            | None \<Rightarrow>
                (let x = (case x of None \<Rightarrow> fst (cursor_position s) | Some v \<Rightarrow> v);
                     y = (case y of None \<Rightarrow> snd (cursor_position s) | Some v \<Rightarrow> v);
                     x = (if i \<noteq> 0 then x + run_letter_spacing rn else x);
                     new_cursor_position = (x + extents, y);
                     dp = cursor_d_position s;
                     s = call [Save, Move_to x y, Rel_move_to (fst dp) (snd dp),
                               Rel_move_to (run_x_align rn) (run_y_align rn),
                               Rotate (case r of None \<Rightarrow> run_last_r rn | Some v \<Rightarrow> v)] s;
                     points =
                       [(fst new_cursor_position + run_x_align rn + fst dp,
                         snd new_cursor_position + run_y_align rn + snd dp),
                        (fst new_cursor_position + run_x_align rn
                           + x_advance_of letter_extents + fst dp,
                         snd new_cursor_position + run_y_align rn
                           + height_of letter_extents + snd dp)];
                     bounding_box = extend_bounding_box bounding_box points;
                     s = emit_letter (run_draw_as_text rn) letter s
                 in Inr (s\<lparr>cursor_position := new_cursor_position\<rparr>, bounding_box))))"


subsection \<open>The function text\<close>


text \<open>Lines 266 to 270: the cursor of a node without text.\<close>

definition place_cursor ::
  "real list \<Rightarrow> real list \<Rightarrow> real list \<Rightarrow> real list \<Rightarrow> surface \<Rightarrow> surface" where
  "place_cursor x y dx dy s =
     (let x = (if x \<noteq> [] then hd x else fst (cursor_position s));
          y = (if y \<noteq> [] then hd y else snd (cursor_position s));
          dx = (if dx \<noteq> [] then hd dx else 0);
          dy = (if dy \<noteq> [] then hd dy else 0)
      in s\<lparr>cursor_position := (x + dx, y + dy)\<rparr>)"


subsection \<open>Observations and examples\<close>

text \<open>The rotations and the glyphs among recorded calls, in order.\<close>

fun rotations :: "ctx_call list \<Rightarrow> real list" where
  "rotations [] = []"
| "rotations (Rotate a # cs) = a # rotations cs"
| "rotations (c # cs) = rotations cs"

fun glyph_calls :: "ctx_call list \<Rightarrow> ctx_call list" where
  "glyph_calls [] = []"
| "glyph_calls (Show_text t # cs) = Show_text t # glyph_calls cs"
| "glyph_calls (Glyph_path t # cs) = Glyph_path t # glyph_calls cs"
| "glyph_calls (c # cs) = glyph_calls cs"



text \<open>
  Collaborators for the examples: every character is 10 wide and advances by 10, a
  length or a number is a string of digits, and attribute values are already normalized.
\<close>

definition example_env :: env where
  "example_env =
     \<lparr>text_extents =
        (\<lambda>f t. (1, 2, 10 * real (length (case t of None \<Rightarrow> [] | Some u \<Rightarrow> u)), 4,
                 10 * real (length (case t of None \<Rightarrow> [] | Some u \<Rightarrow> u)), 0)),
      font_extents = (\<lambda>f. (8, 2, 10, 10, 0)),
      size_of = (\<lambda>v r. case v of None \<Rightarrow> 0
                       | Some t \<Rightarrow> if isdigit t then real (int_of_digits t) else 0),
      normalize = (\<lambda>v. v),
      float_of = (\<lambda>v. if isdigit v then Some (real (int_of_digits v)) else None),
      text_path = None\<rparr>"

definition example_face :: font_face where
  "example_face =
     \<lparr>face_family = ''sans-serif'', face_slant = FONT_SLANT_NORMAL,
      face_weight = FONT_WEIGHT_NORMAL, face_size = 16\<rparr>"

definition example_surface :: surface where
  "example_surface =
     \<lparr>font_size = 16, context_font = example_face, context_calls = [],
      stroke_and_fill = True, cursor_position = (0, 0), cursor_d_position = (0, 0),
      text_path_width = 0\<rparr>"







text \<open>An element whose font size is the superscript two (character 178).\<close>

definition example_superscript_node :: node where
  "example_superscript_node = Node ''text'' (Some ''a'') [(''font-size'', [CHR 0xB2])] []"


text \<open>A run on the path from \<open>(0, 0)\<close> to \<open>(3, 0)\<close>, with the length 4 and the letter spacing 2.\<close>

definition example_run :: run where
  "example_run =
     \<lparr>run_font = example_face, run_path = Some ([MoveTo (0, 0), LineTo (3, 0)], 4),
      run_letter_spacing = 2, run_x_align = 0, run_y_align = 0, run_last_r = 0,
      run_draw_as_text = False\<rparr>"

section \<open>Lemmas\<close>

subsection \<open>Distances, angles and the walk along a path\<close>

lemma distance_nonneg: "0 \<le> distance x1 y1 x2 y2"
  by (simp add: distance_def)

lemma distance_cmod: "distance x1 y1 x2 y2 = cmod (Complex (x2 - x1) (y2 - y1))"
  by (simp add: distance_def cmod_def)

lemma distance_zero_iff: "distance x1 y1 x2 y2 = 0 \<longleftrightarrow> x1 = x2 \<and> y1 = y2"
  by (auto simp add: distance_def sum_power2_eq_zero_iff)

lemma cos_angle_distance:
  "cos (point_angle x1 y1 x2 y2) * distance x1 y1 x2 y2 = x2 - x1"
proof (cases "Complex (x2 - x1) (y2 - y1) = 0")
  case True
  then show ?thesis by (simp add: distance_cmod complex_eq_iff)
next
  case False
  then show ?thesis
    by (simp add: point_angle_def distance_cmod cos_Arg)
qed

lemma sin_angle_distance:
  "sin (point_angle x1 y1 x2 y2) * distance x1 y1 x2 y2 = y2 - y1"
proof (cases "Complex (x2 - x1) (y2 - y1) = 0")
  case True
  then show ?thesis by (simp add: distance_cmod complex_eq_iff)
next
  case False
  then show ?thesis
    by (simp add: point_angle_def distance_cmod sin_Arg)
qed

lemma distance_3: "distance 0 0 3 0 = 3"
  by (simp add: distance_def)

lemma distance_4: "distance 3 0 3 4 = 4"
  by (simp add: distance_def)

lemma point_angle_east: "x1 < x2 \<Longrightarrow> point_angle x1 y x2 y = 0"
proof -
  assume "x1 < x2"
  then have "sgn (Complex (x2 - x1) 0) = cis 0"
    by (simp add: sgn_eq complex_eq_iff cmod_def)
  then have "Arg (Complex (x2 - x1) 0) = 0"
    by (rule cis_Arg_unique) simp_all
  then show ?thesis by (simp add: point_angle_def)
qed

lemma path_length_loop_mono:
  "path_length_loop old t path = Inr L \<Longrightarrow> t \<le> L"
proof (induction path arbitrary: old t)
  case Nil
  then show ?case by simp
next
  case (Cons s path)
  show ?case
  proof (cases s)
    case (MoveTo p)
    with Cons show ?thesis by simp
  next
    case (LineTo p)
    with Cons.prems obtain a where a: "old = Some a"
      by (cases old) auto
    with Cons.prems LineTo
    have "t + distance (fst a) (snd a) (fst p) (snd p) \<le> L"
      by (auto intro: Cons.IH)
    with distance_nonneg[of "fst a" "snd a" "fst p" "snd p"] show ?thesis by linarith
  next
    case ClosePath
    with Cons show ?thesis by simp
  qed
qed

lemma pfp_beyond_none:
  "path_length_loop old t path = Inr L \<Longrightarrow> L < w \<Longrightarrow>
   point_following_path_loop old t w path = Inr None"
proof (induction path arbitrary: old t)
  case Nil
  then show ?case by simp
next
  case (Cons s path)
  show ?case
  proof (cases s)
    case (MoveTo p)
    with Cons show ?thesis by simp
  next
    case (LineTo p)
    with Cons.prems obtain a where a: "old = Some a"
      by (cases old) auto
    let ?t = "t + distance (fst a) (snd a) (fst p) (snd p)"
    from Cons.prems LineTo a have pl: "path_length_loop (Some p) ?t path = Inr L"
      by simp
    from path_length_loop_mono[OF pl] Cons.prems(2) have "?t < w" by simp
    with Cons.IH[OF pl Cons.prems(2)] LineTo a show ?thesis by (simp add: Let_def)
  next
    case ClosePath
    with Cons show ?thesis by simp
  qed
qed

lemma pfp_within_some:
  "path_length_loop old t path = Inr L \<Longrightarrow> w \<le> L \<Longrightarrow>
   t < w \<or> (\<exists>p. LineTo p \<in> set path) \<Longrightarrow>
   \<exists>q. point_following_path_loop old t w path = Inr (Some q)"
proof (induction path arbitrary: old t)
  case Nil
  then show ?case by auto
next
  case (Cons s path)
  show ?case
  proof (cases s)
    case (MoveTo p)
    with Cons.prems have "path_length_loop (Some p) t path = Inr L"
      and "t < w \<or> (\<exists>q. LineTo q \<in> set path)" by auto
    from Cons.IH[OF this(1) Cons.prems(2) this(2)] MoveTo show ?thesis by simp
  next
    case (LineTo p)
    with Cons.prems obtain a where a: "old = Some a"
      by (cases old) auto
    let ?t = "t + distance (fst a) (snd a) (fst p) (snd p)"
    from Cons.prems LineTo a have pl: "path_length_loop (Some p) ?t path = Inr L"
      by simp
    show ?thesis
    proof (cases "?t < w")
      case True
      then have "?t < w \<or> (\<exists>q. LineTo q \<in> set path)" by simp
      from Cons.IH[OF pl Cons.prems(2) this] True LineTo a show ?thesis
        by (simp add: Let_def)
    next
      case False
      with LineTo a show ?thesis by (simp add: Let_def)
    qed
  next
    case ClosePath
    with Cons.prems have "path_length_loop old t path = Inr L"
      and "t < w \<or> (\<exists>q. LineTo q \<in> set path)" by auto
    from Cons.IH[OF this(1) Cons.prems(2) this(2)] ClosePath show ?thesis by simp
  qed
qed

lemma polyline_zero_length:
  "path_length_loop (Some q) t (map LineTo qs) = Inr t \<Longrightarrow> x \<in> set qs \<Longrightarrow> x = q"
proof (induction qs arbitrary: q)
  case Nil
  then show ?case by simp
next
  case (Cons a qs)
  let ?d = "distance (fst q) (snd q) (fst a) (snd a)"
  from Cons.prems(1) have pl: "path_length_loop (Some a) (t + ?d) (map LineTo qs) = Inr t"
    by simp
  from path_length_loop_mono[OF pl] distance_nonneg[of "fst q" "snd q" "fst a" "snd a"]
  have d0: "?d = 0" by linarith
  then have aq: "a = q" by (simp add: distance_zero_iff prod_eq_iff)
  from pl d0 have "path_length_loop (Some a) t (map LineTo qs) = Inr t" by simp
  with Cons.IH[of a] Cons.prems(2) aq show ?case by auto
qed

lemma pfp_polyline_last:
  "path_length_loop (Some p) t (map LineTo qs) = Inr L \<Longrightarrow> qs \<noteq> [] \<Longrightarrow>
   point_following_path_loop (Some p) t L (map LineTo qs) = Inr (Some (last qs))"
proof (induction qs arbitrary: p t)
  case Nil
  then show ?case by simp
next
  case (Cons a qs)
  let ?d = "distance (fst p) (snd p) (fst a) (snd a)"
  from Cons.prems(1) have pl: "path_length_loop (Some a) (t + ?d) (map LineTo qs) = Inr L"
    by simp
  have le: "t + ?d \<le> L" using path_length_loop_mono[OF pl] .
  show ?case
  proof (cases "t + ?d < L")
    case True
    have "qs \<noteq> []" using pl True by auto
    with Cons.IH[OF pl] True show ?thesis by (simp add: Let_def)
  next
    case False
    with le have eq: "t + ?d = L" by simp
    with pl have "\<forall>x\<in>set qs. x = a" using polyline_zero_length by blast
    then have la: "last (a # qs) = a"
      by (cases qs rule: rev_cases) auto
    have "cos (point_angle (fst p) (snd p) (fst a) (snd a)) * ?d + fst p = fst a"
      "sin (point_angle (fst p) (snd p) (fst a) (snd a)) * ?d + snd p = snd a"
      by (simp_all add: cos_angle_distance sin_angle_distance)
    with eq la show ?thesis by (simp add: Let_def prod_eq_iff)
  qed
qed

lemma pfp_skip_prefix:
  "\<forall>s\<in>set pre. \<forall>p. s \<noteq> LineTo p \<Longrightarrow>
   point_following_path_loop old t w (pre @ MoveTo a # xs) =
   point_following_path_loop (Some a) t w xs"
proof (induction pre arbitrary: old)
  case Nil
  then show ?case by simp
next
  case (Cons s pre)
  then show ?case by (cases s) auto
qed

lemma pfp_loop_returns:
  "path_length_loop old t path = Inr L \<Longrightarrow> \<exists>r. point_following_path_loop old t w path = Inr r"
proof (induction path arbitrary: old t)
  case Nil
  then show ?case by simp
next
  case (Cons s path)
  show ?case
  proof (cases s)
    case (MoveTo p)
    with Cons show ?thesis by simp
  next
    case (LineTo p)
    with Cons.prems obtain a where a: "old = Some a"
      by (cases old) auto
    with Cons.prems LineTo
    have "path_length_loop (Some p) (t + distance (fst a) (snd a) (fst p) (snd p)) path = Inr L"
      by simp
    from Cons.IH[OF this] LineTo a show ?thesis by (simp add: Let_def)
  next
    case ClosePath
    with Cons show ?thesis by simp
  qed
qed

lemma point_following_path_returns:
  "path_length path = Inr L \<Longrightarrow> \<exists>r. point_following_path path w = Inr r"
  unfolding path_length_def point_following_path_def by (rule pfp_loop_returns)


lemma point_following_path_trailing_move:
  "path_length [MoveTo (0, 0), LineTo (3, 0), MoveTo (7, 7)] = Inr 3
   \<and> point_following_path [MoveTo (0, 0), LineTo (3, 0), MoveTo (7, 7)] 3 = Inr (Some (3, 0))"
  by (simp add: path_length_def point_following_path_def distance_3 point_angle_east Let_def)

subsection \<open>The container of a node and its nodes\<close>

lemma iter_nodes_self: "(n, cs) \<in> set (iter_nodes n cs)"
  by (cases n) simp

lemma iter_children_covers:
  "set (iter_nodes n (Crumb t x a (l0 @ l) r # cs)) \<subseteq> set (iter_children t x a l0 (l @ n # r) cs)"
proof (induction l arbitrary: l0)
  case Nil
  then show ?case by simp
next
  case (Cons m l)
  from Cons.IH[of "l0 @ [m]"] show ?case by auto
qed

lemma iter_nodes_plug:
  "set (iter_nodes n (c # cs)) \<subseteq> set (iter_nodes (plug c n) cs)"
proof (cases c)
  case (Crumb t x a l r)
  with iter_children_covers[of n t x a "[]" l r cs] show ?thesis
    by (auto simp add: plug_def)
qed

lemma iter_nodes_climb:
  "set (iter_nodes n cs) \<subseteq> set (iter_nodes (fst (climb n cs)) (snd (climb n cs)))"
proof (induction cs arbitrary: n)
  case Nil
  then show ?case by simp
next
  case (Cons c cs)
  show ?case
  proof (cases "tag n \<noteq> ''text'' \<and> parent_truthy c")
    case True
    with Cons.IH[of "plug c n"] iter_nodes_plug[of n c cs] show ?thesis by auto
  next
    case False
    then show ?thesis by auto
  qed
qed

lemma iter_nodes_preorder:
  "map fst (iter_nodes n cs) = preorder n"
  "map fst (iter_children t x a l ch cs) = concat (map preorder ch)"
  by (induction n cs and t x a l ch cs rule: iter_nodes_iter_children.induct) simp_all

lemma find_text_climb:
  "\<forall>c\<in>set cs. parent_truthy c \<Longrightarrow>
   find (\<lambda>r. tag (fst r) = ''text'') (ancestors_or_self n cs) =
   (if tag (fst (climb n cs)) = ''text'' then Some (climb n cs) else None)"
  by (induction cs arbitrary: n) auto

lemma text_container_enclosing_text:
  "\<forall>c\<in>set (snd node). parent_truthy c \<Longrightarrow> text_container node = enclosing_text node"
  by (auto simp add: text_container_def enclosing_text_def find_text_climb Let_def)

lemma node_in_container:
  "node \<in> set (iter_nodes (fst (text_container node)) (snd (text_container node)))"
proof -
  obtain n cs where node: "node = (n, cs)" by (cases node)
  show ?thesis
  proof (cases "text_container node = node")
    case True
    with iter_nodes_self[of n cs] node show ?thesis by simp
  next
    case False
    then have "text_container node = climb n cs"
      by (auto simp add: text_container_def Let_def node split: if_splits)
    with iter_nodes_climb[of n cs] iter_nodes_self[of n cs] node show ?thesis by auto
  qed
qed

lemma extents_loop_result:
  assumes "\<forall>r\<in>set subs. get_single_node_text_extends e fs (fst r) = Inr (m (fst r))"
  shows "extents_loop e fs node (xb, yb, w, h) subs =
     Inr (let own = m (fst node);
              total = w + sum_list (map (\<lambda>r. width_of (m (fst r))) subs)
          in if node \<in> set subs then (x_bearing_of own, y_bearing_of own, total, height_of own)
             else (xb, yb, total, h))"
  using assms
proof (induction subs arbitrary: xb yb w h)
  case Nil
  then show ?case by simp
next
  case (Cons s subs)
  obtain a b c d e' f where m: "m (fst s) = (a, b, c, d, e', f)"
    by (cases "m (fst s)")
  from Cons.prems have s: "get_single_node_text_extends e fs (fst s) = Inr (a, b, c, d, e', f)"
    and rest: "\<forall>r\<in>set subs. get_single_node_text_extends e fs (fst r) = Inr (m (fst r))"
    by (simp_all add: m)
  show ?case
  proof (cases "s = node")
    case True
    with s m Cons.IH[OF rest, of a b "w + c" d] show ?thesis
      by (simp add: Let_def x_bearing_of_def y_bearing_of_def width_of_def height_of_def
          add.assoc)
  next
    case False
    with s m Cons.IH[OF rest, of xb yb "w + c" h] show ?thesis
      by (auto simp add: Let_def width_of_def add.assoc)
  qed
qed

lemma extents_loop_member:
  "extents_loop e fs node acc subs = Inr res \<Longrightarrow> r \<in> set subs \<Longrightarrow>
   \<exists>t. get_single_node_text_extends e fs (fst r) = Inr t"
proof (induction subs arbitrary: acc)
  case Nil
  then show ?case by simp
next
  case (Cons s subs)
  obtain xb yb w h where acc: "acc = (xb, yb, w, h)" by (cases acc) auto
  from Cons.prems(1) obtain t where t: "get_single_node_text_extends e fs (fst s) = Inr t"
    by (cases "get_single_node_text_extends e fs (fst s)") (auto simp add: acc)
  obtain a b c d e' f where tt: "t = (a, b, c, d, e', f)" by (cases t) auto
  show ?case
  proof (cases "r = s")
    case True
    with t show ?thesis by blast
  next
    case False
    with Cons.prems(2) have "r \<in> set subs" by simp
    moreover from Cons.prems(1) t tt acc obtain acc' where
      "extents_loop e fs node acc' subs = Inr res" by auto
    ultimately show ?thesis using Cons.IH by blast
  qed
qed

text \<open>
  What \<^verbatim>\<open>get_node_text_extents\<close> returns when the measurement of every node of the
  container returns: the width summed over the container in document order, the bearings
  and the height of the queried node, and the two differences.
\<close>

lemma get_node_text_extents_result:
  assumes "\<forall>n\<in>set (preorder (fst (text_container node))).
      get_single_node_text_extends e fs n = Inr (m n)"
  shows "get_node_text_extents e fs node =
     Inr (let own = m (fst node);
              width = sum_list (map (\<lambda>n. width_of (m n)) (preorder (fst (text_container node))))
          in (x_bearing_of own, y_bearing_of own, width, height_of own,
              width - x_bearing_of own, height_of own - y_bearing_of own))"
proof -
  let ?c = "text_container node"
  have pre: "map fst (iter_nodes (fst ?c) (snd ?c)) = preorder (fst ?c)"
    by (rule iter_nodes_preorder(1))
  have all: "\<forall>r\<in>set (iter_nodes (fst ?c) (snd ?c)).
      get_single_node_text_extends e fs (fst r) = Inr (m (fst r))"
  proof
    fix r assume "r \<in> set (iter_nodes (fst ?c) (snd ?c))"
    then have "fst r \<in> set (map fst (iter_nodes (fst ?c) (snd ?c)))" by simp
    with pre assms show "get_single_node_text_extends e fs (fst r) = Inr (m (fst r))"
      by simp
  qed
  have w: "map (\<lambda>r. width_of (m (fst r))) (iter_nodes (fst ?c) (snd ?c))
      = map (\<lambda>n. width_of (m n)) (preorder (fst ?c))"
    using pre[symmetric] by (simp add: comp_def)
  show ?thesis
    unfolding get_node_text_extents_def Let_def
    using node_in_container[of node]
    by (simp add: extents_loop_result[OF all] Let_def w)
qed

text \<open>
  Where every ancestor of the node has at least one attribute, the container is the one
  the specification describes.
\<close>

lemma get_node_text_extents_with_attributes:
  assumes "\<forall>c\<in>set (snd node). parent_truthy c"
    and "\<forall>n\<in>set (preorder (fst (enclosing_text node))).
      get_single_node_text_extends e fs n = Inr (m n)"
  shows "get_node_text_extents e fs node =
     Inr (let own = m (fst node);
              width = sum_list (map (\<lambda>n. width_of (m n)) (preorder (fst (enclosing_text node))))
          in (x_bearing_of own, y_bearing_of own, width, height_of own,
              width - x_bearing_of own, height_of own - y_bearing_of own))"
  using get_node_text_extents_result[of node e fs m] assms
  by (simp add: text_container_enclosing_text)

lemma get_node_text_extents_font:
  assumes "get_node_text_extents e fs node = Inr ext"
  shows "\<exists>font. initial_context_font fs (fst node) = Inr font"
proof -
  let ?c = "text_container node"
  from assms obtain res where
    "extents_loop e fs node (0, 0, 0, 0) (iter_nodes (fst ?c) (snd ?c)) = Inr res"
    by (auto simp add: get_node_text_extents_def Let_def split: sum.splits)
  from extents_loop_member[OF this node_in_container[of node]]
  show ?thesis
    by (auto simp add: get_single_node_text_extends_def split: sum.splits)
qed

subsection \<open>Strings and attribute lists\<close>

lemma upper_font_weight_bold: "upper ''font_weight_bold'' = ''FONT_WEIGHT_BOLD''"
  by (simp add: upper_def upper_char_def)

text \<open>
  Whenever \<^verbatim>\<open>initial_context_font\<close> returns, a weight of digits of value at least 550 is
  bold, and the size is the value of a font size of digits and the size of the surface
  otherwise.
\<close>

lemma initial_context_font_returned:
  assumes "initial_context_font fs node = Inr f"
  shows "(get node ''font-weight'' = Some w \<and> isdigit w \<and> int_of_digits w \<ge> 550 \<longrightarrow>
            face_weight f = FONT_WEIGHT_BOLD)
    \<and> face_size f =
        (case get node ''font-size'' of
           None \<Rightarrow> fs
         | Some z \<Rightarrow> if isdigit z then real (int_of_digits z) else fs)"
proof -
  have bold: "face_weight f = FONT_WEIGHT_BOLD"
    if "get node ''font-weight'' = Some w" "isdigit w" "int_of_digits w \<ge> 550"
  proof -
    from that(2) have "w \<noteq> []" by (simp add: isdigit_def)
    with that assms show ?thesis
      using upper_font_weight_bold
      by (auto simp add: initial_context_font_def Let_def format_opt_def
          getattr_font_weight_def py_int_def split: sum.splits option.splits if_splits)
  qed
  have size: "face_size f =
        (case get node ''font-size'' of
           None \<Rightarrow> fs
         | Some z \<Rightarrow> if isdigit z then real (int_of_digits z) else fs)"
    using assms
    by (auto simp add: initial_context_font_def Let_def isdigit_def py_int_def
        split: sum.splits option.splits if_splits)
  from bold size show ?thesis by blast
qed









subsection \<open>The loop over the characters\<close>

lemma accumulate_deltas_calls [simp]:
  "context_calls (accumulate_deltas p s) = context_calls s"
  by (cases p) (simp add: accumulate_deltas_def Let_def)

lemma accumulate_deltas_width [simp]:
  "text_path_width (accumulate_deltas p s) = text_path_width s"
  by (cases p) (simp add: accumulate_deltas_def Let_def)

lemma accumulate_deltas_cursor [simp]:
  "cursor_position (accumulate_deltas p s) = cursor_position s"
  by (cases p) (simp add: accumulate_deltas_def Let_def)

lemma rotations_append [simp]: "rotations (xs @ ys) = rotations xs @ rotations ys"
  by (induction xs rule: rotations.induct) simp_all

lemma glyph_calls_append [simp]: "glyph_calls (xs @ ys) = glyph_calls xs @ glyph_calls ys"
  by (induction xs rule: glyph_calls.induct) simp_all

lemma rotations_emit_letter [simp]:
  "rotations (context_calls (emit_letter d letter s)) = rotations (context_calls s)"
  by (simp add: emit_letter_def call_def Let_def)

lemma letter_step_continue:
  assumes path: "run_path rn = Some (cairo_path, len)"
    and sp: "point_following_path cairo_path
               (text_path_width (accumulate_deltas pos s)
                + fst (cursor_d_position (accumulate_deltas pos s))) = Inr sp"
    and mp: "point_following_path cairo_path
               (text_path_width (accumulate_deltas pos s)
                + fst (cursor_d_position (accumulate_deltas pos s))
                + x_advance_of (text_extents e (run_font rn) (Some [letter])) / 2) = Inr mp"
    and ep: "point_following_path cairo_path
               (text_path_width (accumulate_deltas pos s)
                + fst (cursor_d_position (accumulate_deltas pos s))
                + x_advance_of (text_extents e (run_font rn) (Some [letter]))) = Inr ep"
    and skip: "sp = None \<or> mp = None \<or> ep = None
        \<or> \<not> (0 \<le> text_path_width (accumulate_deltas pos s)
                + fst (cursor_d_position (accumulate_deltas pos s))
                + x_advance_of (text_extents e (run_font rn) (Some [letter])) / 2
             \<and> text_path_width (accumulate_deltas pos s)
                + fst (cursor_d_position (accumulate_deltas pos s))
                + x_advance_of (text_extents e (run_font rn) (Some [letter])) / 2 \<le> len)"
  shows "letter_step e rn i (pos, letter) (s, bounding_box) =
     Inr ((accumulate_deltas pos s)\<lparr>text_path_width :=
            text_path_width (accumulate_deltas pos s)
            + (if i \<noteq> 0
               then x_advance_of (text_extents e (run_font rn) (Some [letter]))
                    + run_letter_spacing rn
               else x_advance_of (text_extents e (run_font rn) (Some [letter])))\<rparr>,
          bounding_box)"
proof -
  obtain x y dx dy r where pos: "pos = (x, y, dx, dy, r)" by (cases pos)
  show ?thesis
    using skip
    unfolding letter_step_def pos Let_def prod.case path option.case
      sp[unfolded pos] mp[unfolded pos] ep[unfolded pos] sum.case
    by (cases sp; cases mp; cases ep) (simp_all add: pos)
qed





lemma place_cursor_calls [simp]: "context_calls (place_cursor x y dx dy s) = context_calls s"
  by (simp add: place_cursor_def Let_def)



lemma accumulate_deltas_result:
  "cursor_d_position (accumulate_deltas (x, y, dx, dy, r) s) =
     ((if nonzero x then 0 else fst (cursor_d_position s)) + or_zero dx,
      (if nonzero y then 0 else snd (cursor_d_position s)) + or_zero dy)"
  by (simp add: accumulate_deltas_def Let_def)



section \<open>Claims\<close>

subsection \<open>C1: aggregation of text extents\<close>


subsection \<open>C2: horizontal alignment\<close>

text \<open>
  Claim C2.  For a text-anchor \<^verbatim>\<open>middle\<close> the offset is \<open>- (w / 2 + b)\<close>, reduced by
  \<open>(n - 1) * s / 2\<close> when the letter spacing \<open>s\<close> is not zero and the text is not empty;
  for \<^verbatim>\<open>end\<close> it is \<open>- (w + b)\<close>, reduced by \<open>(n - 1) * s\<close> under the same condition;
  for any other anchor it is 0.  With \<open>w = 40\<close>, \<open>b = 2\<close>, three characters and \<open>s = 1\<close>
  the two offsets are \<open>- 23\<close> and \<open>- 44\<close>.
\<close>

theorem x_align_anchor:
  "(anchor = Some ''middle'' \<longrightarrow>
      x_align anchor w b s text =
        - (w / 2 + b)
        - (if s \<noteq> 0 \<and> truthy text
           then (real (length (case text of None \<Rightarrow> [] | Some t \<Rightarrow> t)) - 1) * s / 2 else 0))
   \<and> (anchor = Some ''end'' \<longrightarrow>
      x_align anchor w b s text =
        - (w + b)
        - (if s \<noteq> 0 \<and> truthy text
           then (real (length (case text of None \<Rightarrow> [] | Some t \<Rightarrow> t)) - 1) * s else 0))
   \<and> (anchor \<noteq> Some ''middle'' \<and> anchor \<noteq> Some ''end'' \<longrightarrow> x_align anchor w b s text = 0)
   \<and> x_align (Some ''middle'') 40 2 1 (Some ''abc'') = - 23
   \<and> x_align (Some ''end'') 40 2 1 (Some ''abc'') = - 44"
  by (simp add: x_align_def truthy_def Let_def)

text \<open>
  Claim C2 at the numbers of the specification.
\<close>

theorem x_align_anchor_witness:
  "x_align (Some ''middle'') 40 2 1 (Some ''abc'') = - (40 / 2 + 2) - (3 - 1) * 1 / 2
   \<and> x_align (Some ''end'') 40 2 1 (Some ''abc'') = - (40 + 2) - (3 - 1) * 1
   \<and> x_align (Some ''start'') 40 2 1 (Some ''abc'') = 0"
  using x_align_anchor[of "Some ''middle''" 40 2 1 "Some ''abc''"]
    x_align_anchor[of "Some ''end''" 40 2 1 "Some ''abc''"]
    x_align_anchor[of "Some ''start''" 40 2 1 "Some ''abc''"]
  by (simp add: truthy_def)

subsection \<open>C3: characters off the path\<close>

text \<open>
  Claim C3.  In a run that follows a path, a character for which one of the three samples
  is unavailable, or whose middle lies outside \<open>[0, length]\<close>, is skipped: the step
  returns with the bounding box and the recorded calls unchanged, and
  \<^verbatim>\<open>surface.text_path_width\<close> has grown by the advance of the character, plus the
  letter spacing when the index of the character is positive.
\<close>

theorem letter_step_skipped:
  assumes path: "run_path rn = Some (cairo_path, len)"
    and pl: "path_length cairo_path = Inr pl"
    and s1: "s1 = accumulate_deltas pos s"
    and adv: "advance = x_advance_of (text_extents e (run_font rn) (Some [letter]))"
    and start: "start = text_path_width s1 + fst (cursor_d_position s1)"
    and skip: "point_following_path cairo_path start = Inr None
        \<or> point_following_path cairo_path (start + advance / 2) = Inr None
        \<or> point_following_path cairo_path (start + advance) = Inr None
        \<or> start + advance / 2 < 0 \<or> len < start + advance / 2"
  shows "\<exists>s'. letter_step e rn i (pos, letter) (s, bounding_box) = Inr (s', bounding_box)
      \<and> context_calls s' = context_calls s
      \<and> text_path_width s' =
          text_path_width s + advance + (if 0 < i then run_letter_spacing rn else 0)"
proof -
  from point_following_path_returns[OF pl] obtain sp mp ep where
    sp: "point_following_path cairo_path start = Inr sp" and
    mp: "point_following_path cairo_path (start + advance / 2) = Inr mp" and
    ep: "point_following_path cairo_path (start + advance) = Inr ep"
    by metis
  from skip sp mp ep have sk: "sp = None \<or> mp = None \<or> ep = None
      \<or> \<not> (0 \<le> start + advance / 2 \<and> start + advance / 2 \<le> len)"
    by auto
  let ?s2 = "s1\<lparr>text_path_width :=
      text_path_width s1 + (if i \<noteq> 0 then advance + run_letter_spacing rn else advance)\<rparr>"
  have "letter_step e rn i (pos, letter) (s, bounding_box) = Inr (?s2, bounding_box)"
    unfolding s1 adv
    by (rule letter_step_continue[OF path sp[unfolded start s1 adv] mp[unfolded start s1 adv]
          ep[unfolded start s1 adv] sk[unfolded start s1 adv]])
  moreover have "context_calls ?s2 = context_calls s" by (simp add: s1)
  moreover have "text_path_width ?s2 =
      text_path_width s + advance + (if 0 < i then run_letter_spacing rn else 0)"
    by (simp add: s1)
  ultimately show ?thesis by blast
qed

text \<open>
  Claim C3 on an example: the second character of a run on a path of length 3, whose
  middle at 5 is beyond the length 4 of the run.
\<close>

theorem letter_step_skipped_witness:
  "path_length [MoveTo (0, 0), LineTo (3, 0)] = Inr 3
   \<and> (\<exists>s'. letter_step example_env example_run 1 ((None, None, None, None, None), CHR ''b'')
              (example_surface, None) = Inr (s', None)
          \<and> context_calls s' = [] \<and> text_path_width s' = 12)"
proof -
  have pl: "path_length [MoveTo (0, 0), LineTo (3, 0)] = Inr 3"
    by (simp add: path_length_def distance_3)
  have path: "run_path example_run = Some ([MoveTo (0, 0), LineTo (3, 0)], 4)"
    by (simp add: example_run_def)
  have adv: "(10 :: real)
      = x_advance_of (text_extents example_env (run_font example_run) (Some [CHR ''b'']))"
    by (simp add: example_env_def x_advance_of_def)
  have start: "(0 :: real)
      = text_path_width (accumulate_deltas (None, None, None, None, None) example_surface)
        + fst (cursor_d_position
            (accumulate_deltas (None, None, None, None, None) example_surface))"
    by (simp add: accumulate_deltas_def nonzero_def or_zero_def Let_def example_surface_def)
  have skip: "point_following_path [MoveTo (0, 0), LineTo (3, 0)] 0 = Inr None
        \<or> point_following_path [MoveTo (0, 0), LineTo (3, 0)] (0 + 10 / 2) = Inr None
        \<or> point_following_path [MoveTo (0, 0), LineTo (3, 0)] (0 + 10) = Inr None
        \<or> (0 :: real) + 10 / 2 < 0 \<or> (4 :: real) < 0 + 10 / 2"
    by simp
  from letter_step_skipped[OF path pl refl adv start skip, of 1 None]
  show ?thesis
    using pl by (simp add: example_run_def example_surface_def)
qed

subsection \<open>C4: the ends of a path\<close>

text \<open>
  Claim C4, as stated, fails on a path without any line: the path of the single item
  \<open>MoveTo (1, 2)\<close> has length 0, and at distance 0 the function returns \<^verbatim>\<open>None\<close>, not
  the first point, although 0 does not exceed the length.
\<close>

theorem point_following_path_no_line_counterexample:
  "path_length [MoveTo (1, 2)] = Inr 0
   \<and> point_following_path [MoveTo (1, 2)] 0 = Inr None
   \<and> point_following_path [MoveTo (1, 2)] 0 \<noteq> Inr (Some (1, 2))
   \<and> \<not> (0 :: real) > 0"
  by (simp add: path_length_def point_following_path_def)

text \<open>
  Claim C4, amended.  On a path whose length \<open>L\<close> the source computes: every distance
  above \<open>L\<close> gives \<^verbatim>\<open>None\<close>; if the path has at least one line, \<^verbatim>\<open>None\<close> is returned
  exactly for the distances above \<open>L\<close>; if the path starts with a move followed by a
  line, distance 0 gives the first point; if the path is one move followed by one or
  more lines, distance \<open>L\<close> gives the last point.
\<close>

theorem point_following_path_ends:
  assumes "path_length path = Inr L"
  shows "(L < w \<longrightarrow> point_following_path path w = Inr None)
    \<and> ((\<exists>p. LineTo p \<in> set path) \<longrightarrow>
         (point_following_path path w = Inr None \<longleftrightarrow> L < w))
    \<and> (\<forall>a b rest. path = MoveTo a # LineTo b # rest \<longrightarrow>
         point_following_path path 0 = Inr (Some a))
    \<and> (\<forall>p qs. path = MoveTo p # map LineTo qs \<and> qs \<noteq> [] \<longrightarrow>
         point_following_path path L = Inr (Some (last qs)))"
proof -
  from assms have pl: "path_length_loop None 0 path = Inr L"
    by (simp add: path_length_def)
  have beyond: "L < w \<Longrightarrow> point_following_path path w = Inr None"
    using pfp_beyond_none[OF pl] by (simp add: point_following_path_def)
  have within: "point_following_path path w \<noteq> Inr None"
    if "LineTo p \<in> set path" "\<not> L < w" for p
  proof -
    from that(2) have wl: "w \<le> L" by simp
    from that(1) have ex: "0 < w \<or> (\<exists>p. LineTo p \<in> set path)" by blast
    from pfp_within_some[OF pl wl ex] obtain q where
      "point_following_path_loop None 0 w path = Inr (Some q)" by blast
    then show ?thesis
      by (simp add: point_following_path_def)
  qed
  have first: "point_following_path path 0 = Inr (Some a)"
    if "path = MoveTo a # LineTo b # rest" for a b rest
    using that distance_nonneg[of "fst a" "snd a" "fst b" "snd b"]
    by (simp add: point_following_path_def Let_def)
  have final: "point_following_path path L = Inr (Some (last qs))"
    if "path = MoveTo p # map LineTo qs" "qs \<noteq> []" for p qs
  proof -
    from pl that have "path_length_loop (Some p) 0 (map LineTo qs) = Inr L" by simp
    from pfp_polyline_last[OF this that(2)] that(1) show ?thesis
      by (simp add: point_following_path_def)
  qed
  show ?thesis
  proof (intro conjI allI impI)
    assume "L < w"
    then show "point_following_path path w = Inr None" by (rule beyond)
  next
    assume "\<exists>p. LineTo p \<in> set path"
    then obtain p where "LineTo p \<in> set path" ..
    then show "point_following_path path w = Inr None \<longleftrightarrow> L < w"
      using beyond within by blast
  next
    fix a b rest
    assume "path = MoveTo a # LineTo b # rest"
    then show "point_following_path path 0 = Inr (Some a)" by (rule first)
  next
    fix p qs
    assume "path = MoveTo p # map LineTo qs \<and> qs \<noteq> []"
    then show "point_following_path path L = Inr (Some (last qs))"
      using final by blast
  qed
qed

text \<open>
  Claim C4, amended, on the path from \<open>(0, 0)\<close> over \<open>(3, 0)\<close> to \<open>(3, 4)\<close>.
\<close>

theorem point_following_path_ends_witness:
  "path_length [MoveTo (0, 0), LineTo (3, 0), LineTo (3, 4)] = Inr 7
   \<and> point_following_path [MoveTo (0, 0), LineTo (3, 0), LineTo (3, 4)] 8 = Inr None
   \<and> point_following_path [MoveTo (0, 0), LineTo (3, 0), LineTo (3, 4)] 0 = Inr (Some (0, 0))
   \<and> point_following_path [MoveTo (0, 0), LineTo (3, 0), LineTo (3, 4)] 7 = Inr (Some (3, 4))"
proof -
  have pl: "path_length [MoveTo (0, 0), LineTo (3, 0), LineTo (3, 4)] = Inr 7"
    by (simp add: path_length_def distance_3 distance_4)
  note th = point_following_path_ends[OF pl, of 8]
  have a: "point_following_path [MoveTo (0, 0), LineTo (3, 0), LineTo (3, 4)] 8 = Inr None"
    using th[THEN conjunct1] by simp
  have b: "point_following_path [MoveTo (0, 0), LineTo (3, 0), LineTo (3, 4)] 0
      = Inr (Some (0, 0))"
    using th[THEN conjunct2, THEN conjunct2, THEN conjunct1] by simp
  have shape: "[MoveTo (0, 0), LineTo (3, 0), LineTo (3, 4)]
        = MoveTo (0, 0) # map LineTo [(3, 0), (3, 4 :: real)] \<and> [(3, 0), (3, 4 :: real)] \<noteq> []"
    by simp
  have c: "point_following_path [MoveTo (0, 0), LineTo (3, 0), LineTo (3, 4)] 7 = Inr (Some (3, 4))"
    using th[THEN conjunct2, THEN conjunct2, THEN conjunct2, rule_format, OF shape] by simp
  from pl a b c show ?thesis by simp
qed

subsection \<open>C5: the accumulator of relative offsets\<close>

text \<open>
  Claim C5 at an explicit \<open>x = 0\<close>: the condition of the source is the truth value of
  \<open>x\<close>, which is false for 0, so the first component of the accumulator is not reset;
  from \<open>(10, 0)\<close> and \<open>dx = 3\<close> it becomes 13, where the claim says 3.
\<close>

theorem accumulate_deltas_explicit_zero:
  "cursor_d_position
     (accumulate_deltas (Some 0, None, Some 3, None, None)
        (example_surface\<lparr>cursor_d_position := (10, 0)\<rparr>)) = (13, 0)"
  by (simp add: accumulate_deltas_def nonzero_def or_zero_def Let_def)

subsection \<open>C6: rotations beyond the list\<close>




subsection \<open>C7: vertical alignment\<close>

text \<open>
  Claim C7.  When the font metrics do not satisfy \<open>max_x_advance > 0\<close> and
  \<open>max_y_advance = 0\<close>, the vertical offset is 0 whatever the three attributes are, so
  that two runs that differ in these attributes only have the same offset.
\<close>

theorem y_align_not_horizontal:
  assumes "\<not> (max_x_advance > 0 \<and> max_y_advance = 0)"
  shows "y_align ascent descent max_x_advance max_y_advance height y_bearing
           display_anchor dominant_baseline alignment_baseline = 0
       \<and> y_align ascent descent max_x_advance max_y_advance height y_bearing
           display_anchor dominant_baseline alignment_baseline
         = y_align ascent descent max_x_advance max_y_advance height y_bearing
             display_anchor' dominant_baseline' alignment_baseline'"
proof -
  have z: "y_align ascent descent max_x_advance max_y_advance height y_bearing da db ab = 0"
    for da db ab
    unfolding y_align_def using assms by (rule if_not_P)
  show ?thesis by (simp add: z)
qed

text \<open>
  Claim C7 with \<open>max_y_advance = 5\<close>.
\<close>

theorem y_align_not_horizontal_witness:
  "\<not> ((10 :: real) > 0 \<and> (5 :: real) = 0)
   \<and> y_align 8 2 10 5 12 (- 9) (Some ''middle'') (Some ''central'') None = 0
   \<and> y_align 8 2 10 5 12 (- 9) (Some ''middle'') (Some ''central'') None
     = y_align 8 2 10 5 12 (- 9) (Some ''bottom'') None (Some ''hanging'')"
proof -
  have h: "\<not> ((10 :: real) > 0 \<and> (5 :: real) = 0)" by simp
  from y_align_not_horizontal[OF h, of 8 2 12 "- 9" "Some ''middle''" "Some ''central''" None
      "Some ''bottom''" None "Some ''hanging''"] h
  show ?thesis by simp
qed

subsection \<open>C8: a node without text\<close>




subsection \<open>C9: weight and size of the font\<close>

text \<open>
  Claim C9 at the font size of the single character 178, the superscript two.
  \<^verbatim>\<open>str.isdigit\<close> holds for it, so line 70 calls \<^verbatim>\<open>float\<close>, which raises \<^verbatim>\<open>ValueError\<close>;
  the claim says that the size of the surface is used.
\<close>

theorem initial_context_font_superscript_size:
  "get example_superscript_node ''font-size'' = Some [CHR 0xB2]
   \<and> isdigit [CHR 0xB2]
   \<and> initial_context_font 16 example_superscript_node = Inl ValueError"
  by (simp add: example_superscript_node_def get_def isdigit_def isdigit_char_def
      digit_value_def py_int_def initial_context_font_def Let_def)

subsection \<open>C10: negative distances\<close>

text \<open>
  Claim C10.  For a negative distance \<open>w\<close>: on a path that has a length and at least one
  line, the function returns a point, not \<^verbatim>\<open>None\<close>; on a path whose first line goes
  from \<open>a\<close> to \<open>b\<close>, with no line before the move to \<open>a\<close>, that point lies at \<open>w\<close> from
  \<open>a\<close> along the direction of the line, that is, behind \<open>a\<close>: the overshoot that is
  taken back leaves the negative length \<open>w\<close> on the first segment.
\<close>

theorem point_following_path_negative:
  assumes "w < 0"
  shows "(\<forall>L p. path_length path = Inr L \<and> LineTo p \<in> set path \<longrightarrow>
            (\<exists>q. point_following_path path w = Inr (Some q)))
    \<and> (\<forall>pre a b rest.
          path = pre @ MoveTo a # LineTo b # rest \<and> (\<forall>s\<in>set pre. \<forall>p. s \<noteq> LineTo p) \<longrightarrow>
          (let angle = point_angle (fst a) (snd a) (fst b) (snd b);
               d = distance (fst a) (snd a) (fst b) (snd b);
               r = point_following_path path w
           in r = Inr (Some (cos angle * w + fst a, sin angle * w + snd a))
              \<and> (a \<noteq> b \<longrightarrow>
                   r = Inr (Some (fst a + w * ((fst b - fst a) / d),
                                  snd a + w * ((snd b - snd a) / d))))))"
proof (intro conjI allI impI)
  fix L p
  assume h: "path_length path = Inr L \<and> LineTo p \<in> set path"
  then have pl: "path_length_loop None 0 path = Inr L"
    by (simp add: path_length_def)
  from path_length_loop_mono[OF pl] assms have wl: "w \<le> L" by simp
  from h have "0 < w \<or> (\<exists>p. LineTo p \<in> set path)" by blast
  from pfp_within_some[OF pl wl this]
  show "\<exists>q. point_following_path path w = Inr (Some q)"
    by (simp add: point_following_path_def)
next
  fix pre a b rest
  assume h: "path = pre @ MoveTo a # LineTo b # rest \<and> (\<forall>s\<in>set pre. \<forall>p. s \<noteq> LineTo p)"
  then have shape: "path = pre @ MoveTo a # LineTo b # rest"
    and pre: "\<forall>s\<in>set pre. \<forall>p. s \<noteq> LineTo p" by simp_all
  let ?angle = "point_angle (fst a) (snd a) (fst b) (snd b)"
  let ?d = "distance (fst a) (snd a) (fst b) (snd b)"
  have nn: "0 \<le> ?d" by (rule distance_nonneg)
  with assms have "\<not> ?d < w" by simp
  then have r: "point_following_path path w
      = Inr (Some (cos ?angle * w + fst a, sin ?angle * w + snd a))"
    by (simp add: shape point_following_path_def pfp_skip_prefix[OF pre] Let_def)
  have dir: "cos ?angle = (fst b - fst a) / ?d \<and> sin ?angle = (snd b - snd a) / ?d"
    if "a \<noteq> b"
  proof -
    from that have "?d \<noteq> 0" by (simp add: distance_zero_iff prod_eq_iff)
    then show ?thesis
      using cos_angle_distance[of "fst a" "snd a" "fst b" "snd b"]
        sin_angle_distance[of "fst a" "snd a" "fst b" "snd b"]
      by (simp add: field_simps)
  qed
  from r dir show "let angle = ?angle; d = ?d; r = point_following_path path w
      in r = Inr (Some (cos angle * w + fst a, sin angle * w + snd a))
         \<and> (a \<noteq> b \<longrightarrow>
              r = Inr (Some (fst a + w * ((fst b - fst a) / d),
                             snd a + w * ((snd b - snd a) / d))))"
    by (simp add: Let_def mult.commute)
qed

text \<open>
  Claim C10 on the path from \<open>(0, 0)\<close> to \<open>(3, 0)\<close> at distance \<open>- 1\<close>.
\<close>

theorem point_following_path_negative_witness:
  "(-1 :: real) < 0
   \<and> point_following_path [MoveTo (0, 0), LineTo (3, 0)] (-1) = Inr (Some (-1, 0))"
proof -
  have w: "(-1 :: real) < 0" by simp
  have shape: "[MoveTo (0, 0), LineTo (3, 0)] = [] @ MoveTo (0, 0) # LineTo (3, 0) # []
      \<and> (\<forall>s\<in>set ([] :: segment list). \<forall>p. s \<noteq> LineTo p)" by simp
  have ne: "((0, 0) :: point) \<noteq> (3, 0)" by simp
  have "point_following_path [MoveTo (0, 0), LineTo (3, 0)] (-1)
      = Inr (Some (0 + (-1) * ((3 - 0) / distance 0 0 3 0), 0 + (-1) * ((0 - 0) / distance 0 0 3 0)))"
    using point_following_path_negative[OF w, of "[MoveTo (0, 0), LineTo (3, 0)]",
        THEN conjunct2, rule_format, OF shape, unfolded Let_def, THEN conjunct2, rule_format,
        OF ne]
    by simp
  then show ?thesis by (simp add: distance_3)
qed

end
